theory Spec2Isabelle
  imports
    Main
    "HOL-Library.Product_Lexorder"
    "HOL-Library.Char_ord"
    "HOL-Library.List_Lexorder"
    "HOL-Library.AList"
    "HOL-Library.Multiset"
begin

section \<open>Calendar values of the Python runtime\<close>

text \<open>
  The loyalty core works on \<^verbatim>\<open>datetime.date\<close> and \<^verbatim>\<open>datetime.datetime\<close>
  values. A Python \<^verbatim>\<open>date\<close> is a triple of integers whose constructor raises
  \<^verbatim>\<open>ValueError\<close> outside the proleptic Gregorian range of years 1 to 9999; a
  (naive) \<^verbatim>\<open>datetime\<close> is a date together with a time of day, ordered
  lexicographically on (year, month, day, hour, minute, second, microsecond).
\<close>

datatype error = ValueError | IndexError

record date =
  year :: int
  month :: int
  day :: int

record time =
  hour :: int
  minute :: int
  second :: int
  microsecond :: int

record datetime =
  date_of :: date
  time_of :: time

definition is_leap :: "int \<Rightarrow> bool" where
  "is_leap y = (y mod 4 = 0 \<and> (y mod 100 \<noteq> 0 \<or> y mod 400 = 0))"

definition days_in_month :: "int \<Rightarrow> int \<Rightarrow> int" where
  "days_in_month y m =
     (if m = 2 then (if is_leap y then 29 else 28)
      else if m = 4 \<or> m = 6 \<or> m = 9 \<or> m = 11 then 30 else 31)"

definition valid_date :: "date \<Rightarrow> bool" where
  "valid_date d =
     (1 \<le> year d \<and> year d \<le> 9999 \<and> 1 \<le> month d \<and> month d \<le> 12 \<and>
      1 \<le> day d \<and> day d \<le> days_in_month (year d) (month d))"



text \<open>The constructor \<^verbatim>\<open>date(y, m, d)\<close>, with its range check.\<close>

definition mk_date :: "int \<Rightarrow> int \<Rightarrow> int \<Rightarrow> error + date" where
  "mk_date y m d =
     (let r = \<lparr>year = y, month = m, day = d\<rparr>
      in if valid_date r then Inr r else Inl ValueError)"

text \<open>\<^verbatim>\<open>datetime.min.time()\<close> and \<^verbatim>\<open>datetime.max.time()\<close>.\<close>

definition min_time :: time where
  "min_time = \<lparr>hour = 0, minute = 0, second = 0, microsecond = 0\<rparr>"

definition max_time :: time where
  "max_time = \<lparr>hour = 23, minute = 59, second = 59, microsecond = 999999\<rparr>"

definition combine :: "date \<Rightarrow> time \<Rightarrow> datetime" where
  "combine d t = \<lparr>date_of = d, time_of = t\<rparr>"

definition date_key :: "date \<Rightarrow> int \<times> int \<times> int" where
  "date_key d = (year d, month d, day d)"

definition time_key :: "time \<Rightarrow> int \<times> int \<times> int \<times> int" where
  "time_key t = (hour t, minute t, second t, microsecond t)"

definition datetime_key :: "datetime \<Rightarrow> (int \<times> int \<times> int) \<times> (int \<times> int \<times> int \<times> int)" where
  "datetime_key x = (date_key (date_of x), time_key (time_of x))"

text \<open>\<^verbatim>\<open>a <= b\<close> and \<^verbatim>\<open>a < b\<close> on datetimes.\<close>

definition dt_le :: "datetime \<Rightarrow> datetime \<Rightarrow> bool" where
  "dt_le a b = (datetime_key a \<le> datetime_key b)"

definition dt_less :: "datetime \<Rightarrow> datetime \<Rightarrow> bool" where
  "dt_less a b = (datetime_key a < datetime_key b)"

text \<open>Python list indexing: a negative index counts from the end, out of range raises.\<close>

definition index :: "'a list \<Rightarrow> int \<Rightarrow> error + 'a" where
  "index xs i =
     (if 0 \<le> i \<and> i < int (length xs) then Inr (xs ! nat i)
      else if i < 0 \<and> - int (length xs) \<le> i then Inr (xs ! nat (int (length xs) + i))
      else Inl IndexError)"

section \<open>models.py\<close>

text \<open>
  The dataclasses, as records. Field names follow the source, except where two classes
  share a name or the name is taken: \<open>tier_name\<close> is \<^verbatim>\<open>LoyaltyTier.name\<close>,
  \<open>id_cust\<close> is \<^verbatim>\<open>Customer.id\<close>, \<open>id_res\<close> is \<^verbatim>\<open>Reservation.id\<close>, and
  further down \<open>self_window_months\<close> is the \<^verbatim>\<open>window_months\<close> of the strategy.
\<close>

record LoyaltyTier =
  tier_name :: string
  priority :: int

record LoyaltyRule =
  min_visits :: int
  window_months :: int
  resulting_tier :: LoyaltyTier

definition applies :: "LoyaltyRule \<Rightarrow> int \<Rightarrow> bool" where
  "applies r visits_in_window = (visits_in_window \<ge> min_visits r)"

record Customer =
  id_cust :: string
  name :: string
  email :: string
  phone :: string

record Reservation =
  id_res :: string
  customer_id :: string
  dt :: datetime
  party_size :: int

section \<open>repositories.py: the visit aggregator\<close>

text \<open>
  A \<^verbatim>\<open>VisitRepository\<close> is used only through \<^verbatim>\<open>get_reservations()\<close>, so it is the
  list of reservations that call returns.
\<close>

type_synonym VisitRepository = "Reservation list"

definition count_visits :: "VisitRepository \<Rightarrow> string \<Rightarrow> datetime \<Rightarrow> datetime \<Rightarrow> bool \<Rightarrow> int" where
  "count_visits reservations cid start_dt end_dt unique_per_day =
     (let res = filter (\<lambda>r. customer_id r = cid \<and> dt_le start_dt (dt r) \<and> dt_le (dt r) end_dt)
                  reservations
      in if unique_per_day
         then (let days = set (map (\<lambda>r. date_of (dt r)) res) in int (card days))
         else int (length res))"

text \<open>
  \<^verbatim>\<open>visits_by_month\<close>. The nested helper \<^verbatim>\<open>add_months\<close> uses floor division
  and the non-negative remainder of Python, which are \<open>div\<close> and \<open>mod\<close> on \<open>int\<close>.
\<close>

definition month_lengths :: "int \<Rightarrow> int list" where
  "month_lengths y =
     [31, if y mod 4 = 0 \<and> (y mod 100 \<noteq> 0 \<or> y mod 400 = 0) then 29 else 28,
      31, 30, 31, 30, 31, 31, 30, 31, 30, 31]"

definition add_months :: "date \<Rightarrow> int \<Rightarrow> error + date" where
  "add_months d m =
     (let y = year d + (month d - 1 + m) div 12;
          m2 = (month d - 1 + m) mod 12 + 1
      in case index (month_lengths y) (m2 - 1) of
           Inl e \<Rightarrow> Inl e
         | Inr l \<Rightarrow> mk_date y m2 (min (day d) l))"

text \<open>A \<^verbatim>\<open>defaultdict(int)\<close> read, and \<^verbatim>\<open>dict.get(k, default)\<close>.\<close>

definition get_default :: "('k \<rightharpoonup> 'v) \<Rightarrow> 'k \<Rightarrow> 'v \<Rightarrow> 'v" where
  "get_default m k d = (case m k of None \<Rightarrow> d | Some v \<Rightarrow> v)"

fun count_loop ::
  "Reservation list \<Rightarrow> string \<Rightarrow> datetime \<Rightarrow> datetime \<Rightarrow> (int \<times> int \<rightharpoonup> int) \<Rightarrow> (int \<times> int \<rightharpoonup> int)" where
  "count_loop [] cid start_dt end_dt counts = counts"
| "count_loop (r # rs) cid start_dt end_dt counts =
     (if customer_id r \<noteq> cid then count_loop rs cid start_dt end_dt counts
      else if dt_le start_dt (dt r) \<and> dt_le (dt r) end_dt then
        (let key = (year (date_of (dt r)), month (date_of (dt r)))
         in count_loop rs cid start_dt end_dt (counts(key \<mapsto> get_default counts key 0 + 1)))
      else count_loop rs cid start_dt end_dt counts)"

text \<open>
  The zero-filling loop \<^verbatim>\<open>for _ in range(months)\<close>. The result dictionary keeps
  insertion order, so it is an association list; \<^verbatim>\<open>cur = add_months(cur, 1)\<close> runs
  at the end of every round, the last one included.
\<close>

fun fill_loop ::
  "nat \<Rightarrow> (int \<times> int \<rightharpoonup> int) \<Rightarrow> date \<Rightarrow> ((int \<times> int) \<times> int) list \<Rightarrow> error + ((int \<times> int) \<times> int) list" where
  "fill_loop 0 counts cur out = Inr out"
| "fill_loop (Suc k) counts cur out =
     (let out' = AList.update (year cur, month cur) (get_default counts (year cur, month cur) 0) out
      in case add_months cur 1 of
           Inl e \<Rightarrow> Inl e
         | Inr cur' \<Rightarrow> fill_loop k counts cur' out')"

definition visits_by_month ::
  "VisitRepository \<Rightarrow> string \<Rightarrow> int \<Rightarrow> date \<Rightarrow> error + ((int \<times> int) \<times> int) list" where
  "visits_by_month reservations cid months as_of =
     (case mk_date (year as_of) (month as_of) 1 of
        Inl e \<Rightarrow> Inl e
      | Inr first_day \<Rightarrow>
     (case add_months first_day (- (months - 1)) of
        Inl e \<Rightarrow> Inl e
      | Inr start_month \<Rightarrow>
          (let end_dt = combine as_of (min_time\<lparr>hour := 23, minute := 59, second := 59\<rparr>);
               start_dt = combine start_month min_time;
               counts = count_loop reservations cid start_dt end_dt Map.empty
           in fill_loop (nat months) counts start_month [])))"

text \<open>
  \<^verbatim>\<open>InMemoryCustomerRepository\<close> wraps a dictionary from id to customer;
  \<^verbatim>\<open>find_all\<close> lists its values in insertion order.
\<close>

type_synonym InMemoryCustomerRepository = "(string \<times> Customer) list"

definition find_all :: "InMemoryCustomerRepository \<Rightarrow> Customer list" where
  "find_all customers = map snd customers"

section \<open>strategies.py\<close>

function months_ago_loop :: "int \<Rightarrow> int \<Rightarrow> int \<times> int" where
  "months_ago_loop y m = (if m \<le> 0 then months_ago_loop (y - 1) (m + 12) else (y, m))"
  by pat_completeness auto
termination
  by (relation "measure (\<lambda>(y, m). nat (1 - m))") auto

definition months_ago :: "date \<Rightarrow> int \<Rightarrow> error + date" where
  "months_ago as_of months =
     (case months_ago_loop (year as_of) (month as_of - months) of
        (y, m) \<Rightarrow>
          (case index (month_lengths y) (m - 1) of
             Inl e \<Rightarrow> Inl e
           | Inr l \<Rightarrow> mk_date y m (min (day as_of) l)))"

record VisitsInWindowStrategy =
  rules_desc :: "LoyaltyRule list"
  self_window_months :: int
  unique_per_day :: bool

text \<open>The \<^verbatim>\<open>for r in self.rules_desc\<close> loop; \<open>None\<close> when it falls through.\<close>

fun classify_loop :: "LoyaltyRule list \<Rightarrow> int \<Rightarrow> int \<Rightarrow> LoyaltyTier option" where
  "classify_loop [] wm cnt = None"
| "classify_loop (r # rs) wm cnt =
     (if window_months r \<noteq> wm then classify_loop rs wm cnt
      else if applies r cnt then Some (resulting_tier r)
      else classify_loop rs wm cnt)"

definition classify ::
  "VisitsInWindowStrategy \<Rightarrow> Customer \<Rightarrow> date \<Rightarrow> VisitRepository \<Rightarrow> error + LoyaltyTier" where
  "classify self customer as_of visits =
     (case months_ago as_of (self_window_months self) of
        Inl e \<Rightarrow> Inl e
      | Inr start_date \<Rightarrow>
          (let start_dt = combine start_date min_time;
               end_dt = combine as_of max_time;
               cnt = count_visits visits (id_cust customer) start_dt end_dt (unique_per_day self)
           in case classify_loop (rules_desc self) (self_window_months self) cnt of
                Some t \<Rightarrow> Inr t
              | None \<Rightarrow> Inr \<lparr>tier_name = ''Regular'', priority = 0\<rparr>))"

section \<open>config.py\<close>

text \<open>
  \<^verbatim>\<open>sorted(xs, key=f, reverse=True)\<close>: CPython reverses the list, sorts it stably
  in ascending order of the key, and reverses the result.
\<close>

definition sorted_reverse :: "('a \<Rightarrow> 'k::linorder) \<Rightarrow> 'a list \<Rightarrow> 'a list" where
  "sorted_reverse f xs = rev (sort_key f (rev xs))"

record Config =
  rules :: "LoyaltyRule list"

definition Config_init :: Config where
  "Config_init = \<lparr>rules =
     [\<lparr>min_visits = 4, window_months = 3,
        resulting_tier = \<lparr>tier_name = ''Super VIP'', priority = 2\<rparr>\<rparr>,
      \<lparr>min_visits = 2, window_months = 3,
        resulting_tier = \<lparr>tier_name = ''VIP'', priority = 1\<rparr>\<rparr>]\<rparr>"

definition set_rules :: "Config \<Rightarrow> LoyaltyRule list \<Rightarrow> Config" where
  "set_rules self rs = self\<lparr>rules := sorted_reverse min_visits rs\<rparr>"

definition get_rules :: "Config \<Rightarrow> LoyaltyRule list" where
  "get_rules self = rules self"

section \<open>report.py\<close>

text \<open>
  \<^verbatim>\<open>str.lower()\<close> on the code points a \<open>char\<close> can hold (Latin-1): the ASCII
  capitals and the accented capitals U+00C0 to U+00DE, without the multiplication sign.
\<close>

definition lower_char :: "char \<Rightarrow> char" where
  "lower_char c =
     (let n = (of_char c :: nat)
      in if (65 \<le> n \<and> n \<le> 90) \<or> (192 \<le> n \<and> n \<le> 222 \<and> n \<noteq> 215)
         then char_of (n + 32) else c)"

definition lower :: "string \<Rightarrow> string" where
  "lower s = map lower_char s"

definition ranking_top_customers ::
  "VisitRepository \<Rightarrow> InMemoryCustomerRepository \<Rightarrow> int \<Rightarrow> date \<Rightarrow> error + (Customer \<times> int) list" where
  "ranking_top_customers repo customers months as_of =
     (case months_ago as_of months of
        Inl e \<Rightarrow> Inl e
      | Inr start_date \<Rightarrow>
          (let start_dt = combine start_date min_time;
               end_dt = combine as_of max_time;
               rows = map (\<lambda>c. (c, count_visits repo (id_cust c) start_dt end_dt True))
                        (find_all customers)
           in Inr (sort_key (\<lambda>x. (- snd x, lower (name (fst x)))) rows)))"

section \<open>Calendar months as numbers\<close>

text \<open>
  The months of the calendar counted from January of year 0. They are used to state
  which months a window covers: consecutive months have consecutive numbers.
\<close>

definition month_index :: "int \<times> int \<Rightarrow> int" where
  "month_index ym = 12 * fst ym + (snd ym - 1)"

definition month_of_index :: "int \<Rightarrow> int \<times> int" where
  "month_of_index k = (k div 12, k mod 12 + 1)"

definition first_of :: "int \<Rightarrow> date" where
  "first_of k = \<lparr>year = fst (month_of_index k), month = snd (month_of_index k), day = 1\<rparr>"

text \<open>
  The month a reservation falls in (the dictionary key of \<^verbatim>\<open>visits_by_month\<close>), and
  the reservations of one customer inside an inclusive range.
\<close>

definition month_key :: "Reservation \<Rightarrow> int \<times> int" where
  "month_key r = (year (date_of (dt r)), month (date_of (dt r)))"

definition matching :: "string \<Rightarrow> datetime \<Rightarrow> datetime \<Rightarrow> Reservation list \<Rightarrow> Reservation list" where
  "matching cid start_dt end_dt rs =
     filter (\<lambda>r. customer_id r = cid \<and> dt_le start_dt (dt r) \<and> dt_le (dt r) end_dt) rs"

section \<open>Example data\<close>

text \<open>
  A small reservation book used to run the definitions: five customers seen from the
  reference date 15 March 2025.
\<close>

definition visit :: "string \<Rightarrow> string \<Rightarrow> int \<Rightarrow> int \<Rightarrow> int \<Rightarrow> int \<Rightarrow> int \<Rightarrow> Reservation" where
  "visit rid cid y m d h mi =
     \<lparr>id_res = rid, customer_id = cid,
      dt = combine \<lparr>year = y, month = m, day = d\<rparr>
             \<lparr>hour = h, minute = mi, second = 0, microsecond = 0\<rparr>,
      party_size = 2\<rparr>"

definition ex_repo :: VisitRepository where
  "ex_repo =
     [visit ''R01'' ''C001'' 2025 3 10 20 0,
      visit ''R02'' ''C002'' 2025 3 1 13 0,
      visit ''R03'' ''C001'' 2025 3 10 21 30,
      visit ''R04'' ''C001'' 2025 2 14 20 0,
      visit ''R05'' ''C002'' 2025 2 1 13 0,
      visit ''R06'' ''C001'' 2025 1 5 12 0,
      visit ''R07'' ''C003'' 2025 3 15 23 30,
      visit ''R08'' ''C002'' 2025 1 1 13 0,
      visit ''R09'' ''C001'' 2024 12 20 19 0,
      visit ''R10'' ''C002'' 2024 12 1 13 0,
      visit ''R11'' ''C005'' 2025 3 2 13 0]"

definition ex_customer :: "string \<Rightarrow> string \<Rightarrow> Customer" where
  "ex_customer cid nm = \<lparr>id_cust = cid, name = nm, email = [], phone = []\<rparr>"

definition ex_customers :: InMemoryCustomerRepository where
  "ex_customers =
     [(''C001'', ex_customer ''C001'' ''bruno''),
      (''C002'', ex_customer ''C002'' ''Carla''),
      (''C005'', ex_customer ''C005'' ''ANDRES''),
      (''C003'', ex_customer ''C003'' ''Ana''),
      (''C004'', ex_customer ''C004'' ''ana'')]"

definition ex_as_of :: date where
  "ex_as_of = \<lparr>year = 2025, month = 3, day = 15\<rparr>"

definition ex_strategy :: VisitsInWindowStrategy where
  "ex_strategy = \<lparr>rules_desc = rules Config_init, self_window_months = 3, unique_per_day = True\<rparr>"

definition ex_rule :: "int \<Rightarrow> int \<Rightarrow> string \<Rightarrow> int \<Rightarrow> LoyaltyRule" where
  "ex_rule mv wm nm p =
     \<lparr>min_visits = mv, window_months = wm, resulting_tier = \<lparr>tier_name = nm, priority = p\<rparr>\<rparr>"

text \<open>A reservation in the last second of 15 March 2025.\<close>

definition ex_late :: Reservation where
  "ex_late =
     \<lparr>id_res = ''R99'', customer_id = ''C001'',
      dt = combine \<lparr>year = 2025, month = 3, day = 15\<rparr>
             \<lparr>hour = 23, minute = 59, second = 59, microsecond = 500000\<rparr>,
      party_size = 2\<rparr>"

section \<open>Counting visits in a range\<close>

lemmas ex_data_defs =
  ex_repo_def visit_def ex_as_of_def ex_customers_def ex_customer_def ex_strategy_def
  Config_init_def

lemmas dt_order_defs =
  dt_le_def dt_less_def datetime_key_def date_key_def time_key_def combine_def
  min_time_def max_time_def

lemma dt_less_not_le: "dt_less e s \<Longrightarrow> dt_le s x \<Longrightarrow> dt_le x e \<Longrightarrow> False"
  unfolding dt_le_def dt_less_def by (meson leD order_trans)

text \<open>
  Claim C6. \<^verbatim>\<open>count_visits\<close> looks only at the reservations of the given customer
  whose timestamp lies in the inclusive range from start to end. With
  \<^verbatim>\<open>unique_per_day\<close> it returns the number of distinct calendar dates among them,
  otherwise their number. The result is never negative, and it is 0 when no reservation
  carries the customer id and when start is after end.
\<close>

theorem count_visits_spec:
  "count_visits rs cid s e u =
     (if u then int (card ((\<lambda>r. date_of (dt r)) `
                 {r \<in> set rs. customer_id r = cid \<and> dt_le s (dt r) \<and> dt_le (dt r) e}))
      else int (length (filter (\<lambda>r. customer_id r = cid \<and> dt_le s (dt r) \<and> dt_le (dt r) e) rs)))
   \<and> 0 \<le> count_visits rs cid s e u
   \<and> ((\<forall>r \<in> set rs. customer_id r \<noteq> cid) \<longrightarrow> count_visits rs cid s e u = 0)
   \<and> (dt_less e s \<longrightarrow> count_visits rs cid s e u = 0)"
proof -
  let ?P = "\<lambda>r. customer_id r = cid \<and> dt_le s (dt r) \<and> dt_le (dt r) e"
  have a: "(\<forall>r \<in> set rs. customer_id r \<noteq> cid) \<Longrightarrow> filter ?P rs = []"
    by (induction rs) auto
  have b: "dt_less e s \<Longrightarrow> filter ?P rs = []"
    by (induction rs) (auto dest: dt_less_not_le)
  show ?thesis
    using a b by (auto simp: count_visits_def Let_def)
qed

theorem count_visits_spec_witness:
  "''C004'' \<notin> customer_id ` set ex_repo
   \<and> count_visits ex_repo ''C004''
        (combine \<lparr>year = 2024, month = 12, day = 15\<rparr> min_time) (combine ex_as_of max_time) True = 0
   \<and> dt_less (combine \<lparr>year = 2024, month = 12, day = 15\<rparr> min_time) (combine ex_as_of max_time)
   \<and> count_visits ex_repo ''C001''
        (combine ex_as_of max_time) (combine \<lparr>year = 2024, month = 12, day = 15\<rparr> min_time) False = 0
   \<and> count_visits ex_repo ''C001''
        (combine \<lparr>year = 2024, month = 12, day = 15\<rparr> min_time) (combine ex_as_of max_time) True = 4
   \<and> count_visits ex_repo ''C001''
        (combine \<lparr>year = 2024, month = 12, day = 15\<rparr> min_time) (combine ex_as_of max_time) False = 5"
proof -
  let ?s = "combine \<lparr>year = 2024, month = 12, day = 15\<rparr> min_time"
  let ?e = "combine ex_as_of max_time"
  have h1: "\<forall>r \<in> set ex_repo. customer_id r \<noteq> ''C004''"
    by (simp add: ex_data_defs)
  have h2: "dt_less ?s ?e"
    by (simp add: ex_data_defs dt_order_defs)
  have c1: "count_visits ex_repo ''C004'' ?s ?e True = 0"
    using count_visits_spec [of ex_repo "''C004''" ?s ?e True] h1 by blast
  have c2: "count_visits ex_repo ''C001'' ?e ?s False = 0"
    using count_visits_spec [of ex_repo "''C001''" ?e ?s False] h2 by blast
  have c3: "count_visits ex_repo ''C001'' ?s ?e True = 4"
    by (simp add: count_visits_def ex_data_defs dt_order_defs)
  have c4: "count_visits ex_repo ''C001'' ?s ?e False = 5"
    by (simp add: count_visits_def ex_data_defs dt_order_defs)
  from h1 h2 c1 c2 c3 c4 show ?thesis by auto
qed

text \<open>
  Claim C7. For the same customer, range and reservations, the per-day count never
  exceeds the raw count.
\<close>

theorem count_visits_unique_le_raw:
  "count_visits rs cid s e True \<le> count_visits rs cid s e False"
proof -
  let ?res = "filter (\<lambda>r. customer_id r = cid \<and> dt_le s (dt r) \<and> dt_le (dt r) e) rs"
  have "card (set (map (\<lambda>r. date_of (dt r)) ?res)) \<le> length (map (\<lambda>r. date_of (dt r)) ?res)"
    by (rule card_length)
  then show ?thesis
    by (simp add: count_visits_def Let_def del: set_map set_filter)
qed

theorem count_visits_unique_le_raw_witness:
  "count_visits ex_repo ''C001''
     (combine \<lparr>year = 2024, month = 12, day = 15\<rparr> min_time) (combine ex_as_of max_time) True
   < count_visits ex_repo ''C001''
     (combine \<lparr>year = 2024, month = 12, day = 15\<rparr> min_time) (combine ex_as_of max_time) False
   \<and> count_visits ex_repo ''C003''
     (combine \<lparr>year = 2024, month = 12, day = 15\<rparr> min_time) (combine ex_as_of max_time) True
   = count_visits ex_repo ''C003''
     (combine \<lparr>year = 2024, month = 12, day = 15\<rparr> min_time) (combine ex_as_of max_time) False"
  using count_visits_unique_le_raw [of ex_repo "''C001''"
          "combine \<lparr>year = 2024, month = 12, day = 15\<rparr> min_time" "combine ex_as_of max_time"]
  by (simp add: count_visits_def ex_data_defs dt_order_defs)

section \<open>Calendar arithmetic\<close>

declare months_ago_loop.simps [simp del]

lemma months_ago_loop_pos: "0 < m \<Longrightarrow> months_ago_loop y m = (y, m)"
  by (simp add: months_ago_loop.simps)

text \<open>The borrowing loop in closed form, for a month number that needs no carry.\<close>

lemma months_ago_loop_closed:
  "m \<le> 12 \<Longrightarrow> months_ago_loop y m = (y + (m - 1) div 12, (m - 1) mod 12 + 1)"
proof (induction y m rule: months_ago_loop.induct)
  case (1 y m)
  show ?case
  proof (cases "m \<le> 0")
    case True
    have e: "m + 12 - 1 = (m - 1) + 12" by simp
    have d: "(m + 12 - 1) div 12 = (m - 1) div 12 + 1"
      unfolding e by (rule div_add_self2) simp
    have r: "(m + 12 - 1) mod 12 = (m - 1) mod 12"
      unfolding e by (rule mod_add_self2)
    have "months_ago_loop y m = months_ago_loop (y - 1) (m + 12)"
      using True by (subst months_ago_loop.simps) simp
    also have "\<dots> = (y - 1 + (m + 12 - 1) div 12, (m + 12 - 1) mod 12 + 1)"
      using True by (intro 1) simp_all
    finally show ?thesis unfolding d r by simp
  next
    case False
    with 1(2) have "(m - 1) div 12 = 0" "(m - 1) mod 12 = m - 1" by simp_all
    with False show ?thesis by (simp add: months_ago_loop_pos)
  qed
qed

lemma month_cases:
  "1 \<le> m \<Longrightarrow> m \<le> 12 \<Longrightarrow>
   m = 1 \<or> m = 2 \<or> m = 3 \<or> m = 4 \<or> m = 5 \<or> m = 6 \<or> m = 7 \<or> m = 8 \<or> m = 9 \<or> m = 10 \<or> m = 11 \<or> m = (12::int)"
  by arith

text \<open>The list literal of month lengths agrees with the calendar.\<close>

lemma index_month_lengths:
  assumes "1 \<le> m" "m \<le> 12"
  shows "index (month_lengths y) (m - 1) = Inr (days_in_month y m)"
  using month_cases [OF assms]
  by (elim disjE; simp add: index_def month_lengths_def days_in_month_def is_leap_def)

lemma index_month_lengths_out:
  "12 < m \<Longrightarrow> index (month_lengths y) (m - 1) = Inl IndexError"
  by (simp add: index_def month_lengths_def)

lemma days_in_month_ge: "28 \<le> days_in_month y m"
  by (simp add: days_in_month_def)

lemma mk_date_Inr:
  "1 \<le> y \<Longrightarrow> y \<le> 9999 \<Longrightarrow> 1 \<le> m \<Longrightarrow> m \<le> 12 \<Longrightarrow> 1 \<le> dd \<Longrightarrow> dd \<le> days_in_month y m \<Longrightarrow>
   mk_date y m dd = Inr \<lparr>year = y, month = m, day = dd\<rparr>"
  by (simp add: mk_date_def valid_date_def)

lemma mk_date_year_low: "y < 1 \<Longrightarrow> mk_date y m dd = Inl ValueError"
  by (simp add: mk_date_def valid_date_def)

lemma mk_date_year_high: "9999 < y \<Longrightarrow> mk_date y m dd = Inl ValueError"
  by (simp add: mk_date_def valid_date_def)

lemma months_ago_eq:
  assumes "month d \<le> 12" "0 \<le> n"
  shows "months_ago d n =
           mk_date (year d + (month d - n - 1) div 12) ((month d - n - 1) mod 12 + 1)
             (min (day d) (days_in_month (year d + (month d - n - 1) div 12)
                                         ((month d - n - 1) mod 12 + 1)))"
proof -
  have "month d - n \<le> 12" using assms by simp
  then have l: "months_ago_loop (year d) (month d - n) =
      (year d + (month d - n - 1) div 12, (month d - n - 1) mod 12 + 1)"
    by (rule months_ago_loop_closed)
  have "index (month_lengths (year d + (month d - n - 1) div 12)) ((month d - n - 1) mod 12) =
          Inr (days_in_month (year d + (month d - n - 1) div 12) ((month d - n - 1) mod 12 + 1))"
    using index_month_lengths [of "(month d - n - 1) mod 12 + 1"] by simp
  then show ?thesis
    by (simp add: months_ago_def l)
qed

lemmas months_ago_eval =
  months_ago_eq mk_date_def valid_date_def days_in_month_def is_leap_def

lemma months_ago_cases:
  assumes v: "valid_date d" and n: "0 \<le> n"
  shows "if n \<le> 12 * (year d - 1) + (month d - 1)
         then \<exists>r. months_ago d n = Inr r \<and> valid_date r
                \<and> 12 * year r + month r = 12 * year d + month d - n
                \<and> day r = min (day d) (days_in_month (year r) (month r))
         else months_ago d n = Inl ValueError"
proof -
  define q where "q = (month d - n - 1) div 12"
  define r where "r = (month d - n - 1) mod 12"
  have qr: "12 * q + r = month d - n - 1" and r0: "0 \<le> r" and r12: "r < 12"
    by (simp_all add: q_def r_def)
  have md: "1 \<le> month d" "month d \<le> 12" "1 \<le> year d" "year d \<le> 9999" "1 \<le> day d"
    using v by (simp_all add: valid_date_def)
  have eq: "months_ago d n = mk_date (year d + q) (r + 1) (min (day d) (days_in_month (year d + q) (r + 1)))"
    unfolding q_def r_def using md(2) n by (rule months_ago_eq)
  show ?thesis
  proof (cases "n \<le> 12 * (year d - 1) + (month d - 1)")
    case True
    have y1: "1 \<le> year d + q" using True qr r12 by arith
    have y2: "year d + q \<le> 9999" using n qr r0 md by linarith
    have d1: "1 \<le> min (day d) (days_in_month (year d + q) (r + 1))"
      using md(5) days_in_month_ge [of "year d + q" "r + 1"] by simp
    let ?res = "\<lparr>year = year d + q, month = r + 1,
                  day = min (day d) (days_in_month (year d + q) (r + 1))\<rparr>"
    have m: "months_ago d n = Inr ?res"
      unfolding eq using y1 y2 r0 r12 d1 by (intro mk_date_Inr) simp_all
    have vr: "valid_date ?res"
      using y1 y2 r0 r12 d1 by (simp add: valid_date_def)
    have "12 * year ?res + month ?res = 12 * year d + month d - n"
      using qr by simp
    with m vr True show ?thesis by (intro if_P [THEN iffD2] exI [of _ ?res]; simp)
  next
    case False
    then have "year d + q < 1" using qr r0 by arith
    with eq False show ?thesis by (simp add: mk_date_year_low)
  qed
qed




section \<open>The rule set\<close>

lemma sorted_reverse_mset: "mset (sorted_reverse f xs) = mset xs"
  by (simp add: sorted_reverse_def)

lemma sorted_reverse_desc: "sorted_wrt (\<lambda>a b. f b \<le> f a) (sorted_reverse f xs)"
proof -
  have "sorted (map f (sort_key f (rev xs)))" by (rule sorted_sort_key)
  then have "sorted_wrt (\<lambda>a b. f a \<le> f b) (sort_key f (rev xs))"
    by (simp add: sorted_wrt_map)
  then show ?thesis
    by (simp add: sorted_reverse_def sorted_wrt_rev)
qed

lemma sorted_reverse_stable:
  "filter (\<lambda>x. f x = k) (sorted_reverse f xs) = filter (\<lambda>x. f x = k) xs"
proof -
  have "filter (\<lambda>x. f x = k) (sorted_reverse f xs) =
          rev (filter (\<lambda>x. f x = k) (sort_key f (rev xs)))"
    by (simp add: sorted_reverse_def rev_filter)
  also have "\<dots> = rev (filter (\<lambda>x. f x = k) (rev xs))"
    by (simp add: sort_key_stable)
  finally show ?thesis by (simp add: rev_filter)
qed

lemma sorted_reverse_strict:
  assumes "distinct (map f xs)"
  shows "sorted_wrt (\<lambda>a b. f b < f a) (sorted_reverse f xs)"
proof -
  have "mset (map f (sort_key f (rev xs))) = mset (map f xs)" by simp
  then have "distinct (map f (sort_key f (rev xs)))"
    using assms by (metis mset_eq_imp_distinct_iff)
  moreover have "sorted (map f (sort_key f (rev xs)))" by (rule sorted_sort_key)
  ultimately have "sorted_wrt (<) (map f (sort_key f (rev xs)))"
    by (simp add: strict_sorted_iff)
  then have "sorted_wrt (\<lambda>a b. f a < f b) (sort_key f (rev xs))"
    by (simp add: sorted_wrt_map)
  then show ?thesis
    by (simp add: sorted_reverse_def sorted_wrt_rev)
qed

text \<open>
  Claim C3, amended. After \<^verbatim>\<open>set_rules\<close> with any list of rules, \<^verbatim>\<open>get_rules\<close>
  returns a permutation of that list sorted in descending order of \<^verbatim>\<open>min_visits\<close>:
  every rule's threshold is at least that of each rule after it. Rules with the same
  threshold keep the order they had in the input. The order is strictly descending when
  the thresholds of the input are pairwise different.
\<close>

theorem set_rules_sorted:
  "mset (get_rules (set_rules cfg rs)) = mset rs
   \<and> sorted_wrt (\<lambda>a b. min_visits b \<le> min_visits a) (get_rules (set_rules cfg rs))
   \<and> (\<forall>k. filter (\<lambda>r. min_visits r = k) (get_rules (set_rules cfg rs)) =
            filter (\<lambda>r. min_visits r = k) rs)
   \<and> (distinct (map min_visits rs) \<longrightarrow>
        sorted_wrt (\<lambda>a b. min_visits b < min_visits a) (get_rules (set_rules cfg rs)))"
  by (simp add: get_rules_def set_rules_def sorted_reverse_mset sorted_reverse_desc
        sorted_reverse_stable sorted_reverse_strict)

theorem set_rules_sorted_witness:
  "distinct (map min_visits [ex_rule 2 3 ''VIP'' 1, ex_rule 4 3 ''Super VIP'' 2, ex_rule 3 6 ''Gold'' 3])
   \<and> sorted_wrt (\<lambda>a b. min_visits b < min_visits a)
        (get_rules (set_rules Config_init
           [ex_rule 2 3 ''VIP'' 1, ex_rule 4 3 ''Super VIP'' 2, ex_rule 3 6 ''Gold'' 3]))
   \<and> get_rules (set_rules Config_init
           [ex_rule 2 3 ''VIP'' 1, ex_rule 4 3 ''Super VIP'' 2, ex_rule 3 6 ''Gold'' 3])
      = [ex_rule 4 3 ''Super VIP'' 2, ex_rule 3 6 ''Gold'' 3, ex_rule 2 3 ''VIP'' 1]"
proof -
  let ?rs = "[ex_rule 2 3 ''VIP'' 1, ex_rule 4 3 ''Super VIP'' 2, ex_rule 3 6 ''Gold'' 3]"
  have d: "distinct (map min_visits ?rs)"
    by (simp add: ex_rule_def)
  have s: "sorted_wrt (\<lambda>a b. min_visits b < min_visits a) (get_rules (set_rules Config_init ?rs))"
    using set_rules_sorted [of Config_init ?rs] d by blast
  have e: "get_rules (set_rules Config_init ?rs) =
             [ex_rule 4 3 ''Super VIP'' 2, ex_rule 3 6 ''Gold'' 3, ex_rule 2 3 ''VIP'' 1]"
    by (simp add: get_rules_def set_rules_def sorted_reverse_def ex_rule_def)
  from d s e show ?thesis by blast
qed

text \<open>
  The claim as written fails on rules that share a threshold: no order of them is
  strictly descending. The two rules below come back in their input order.
\<close>

theorem set_rules_strict_counterexample:
  "get_rules (set_rules Config_init [ex_rule 2 3 ''VIP'' 1, ex_rule 2 3 ''Gold'' 3])
     = [ex_rule 2 3 ''VIP'' 1, ex_rule 2 3 ''Gold'' 3]
   \<and> \<not> min_visits (ex_rule 2 3 ''Gold'' 3) < min_visits (ex_rule 2 3 ''VIP'' 1)"
  by (simp add: get_rules_def set_rules_def sorted_reverse_def ex_rule_def)

section \<open>The tier classifier\<close>

lemma months_ago_returns:
  assumes "valid_date d" "0 \<le> n" "n \<le> 12 * (year d - 1) + (month d - 1)"
  shows "\<exists>r. months_ago d n = Inr r \<and> valid_date r"
  using months_ago_cases [OF assms(1,2)] assms(3) by auto

text \<open>The rule loop returns the tier of the first rule for this window that applies.\<close>

lemma classify_loop_find:
  "classify_loop rs wm cnt =
     map_option resulting_tier (find (\<lambda>r. window_months r = wm \<and> min_visits r \<le> cnt) rs)"
  by (induction rs) (simp_all add: applies_def)

lemma classify_eq:
  "classify self customer as_of visits =
     (case months_ago as_of (self_window_months self) of
        Inl e \<Rightarrow> Inl e
      | Inr start_date \<Rightarrow>
          Inr (case find (\<lambda>r. window_months r = self_window_months self \<and>
                             min_visits r \<le> count_visits visits (id_cust customer)
                                (combine start_date min_time) (combine as_of max_time)
                                (unique_per_day self))
                      (rules_desc self) of
                 Some r \<Rightarrow> resulting_tier r
               | None \<Rightarrow> \<lparr>tier_name = ''Regular'', priority = 0\<rparr>))"
  by (simp add: classify_def classify_loop_find Let_def split: sum.splits option.splits)

text \<open>
  Claim C1, amended. \<^verbatim>\<open>classify\<close> first computes the window start
  \<^verbatim>\<open>months_ago(as_of, window_months)\<close>; when that raises, \<^verbatim>\<open>classify\<close> raises the
  same error. Otherwise (for a valid reference date and a window of at least 0 months
  that does not reach before year 1 it always is otherwise) it counts the customer's
  visits from the window start at midnight to \<^verbatim>\<open>as_of\<close> at the last instant of the
  day, walks \<^verbatim>\<open>rules_desc\<close> in stored order, skips every rule whose
  \<^verbatim>\<open>window_months\<close> differs from the classifier's, and returns the tier of the first
  remaining rule whose \<^verbatim>\<open>min_visits\<close> is at most the count, or Regular with
  priority 0 when there is none. With the rules 4 visits in 3 months for Super VIP and
  2 visits in 3 months for VIP, a 3-month classifier counting once per day gives
  Super VIP for exactly 4 distinct days, VIP for exactly 3, and Regular for 1 or 0.
\<close>

theorem classify_spec:
  "classify self customer as_of visits =
     (case months_ago as_of (self_window_months self) of
        Inl e \<Rightarrow> Inl e
      | Inr start_date \<Rightarrow>
          Inr (case find (\<lambda>r. window_months r = self_window_months self \<and>
                             min_visits r \<le> count_visits visits (id_cust customer)
                                (combine start_date min_time) (combine as_of max_time)
                                (unique_per_day self))
                      (rules_desc self) of
                 Some r \<Rightarrow> resulting_tier r
               | None \<Rightarrow> \<lparr>tier_name = ''Regular'', priority = 0\<rparr>))
   \<and> (valid_date as_of \<and> 0 \<le> self_window_months self
        \<and> self_window_months self \<le> 12 * (year as_of - 1) + (month as_of - 1)
      \<longrightarrow> (\<exists>t. classify self customer as_of visits = Inr t))
   \<and> (rules_desc self =
          [\<lparr>min_visits = 4, window_months = 3,
             resulting_tier = \<lparr>tier_name = ''Super VIP'', priority = 2\<rparr>\<rparr>,
           \<lparr>min_visits = 2, window_months = 3,
             resulting_tier = \<lparr>tier_name = ''VIP'', priority = 1\<rparr>\<rparr>]
        \<and> self_window_months self = 3 \<and> unique_per_day self
        \<and> months_ago as_of 3 = Inr start_date
      \<longrightarrow> (count_visits visits (id_cust customer)
              (combine start_date min_time) (combine as_of max_time) True = 4
            \<longrightarrow> classify self customer as_of visits = Inr \<lparr>tier_name = ''Super VIP'', priority = 2\<rparr>)
        \<and> (count_visits visits (id_cust customer)
              (combine start_date min_time) (combine as_of max_time) True = 3
            \<longrightarrow> classify self customer as_of visits = Inr \<lparr>tier_name = ''VIP'', priority = 1\<rparr>)
        \<and> (count_visits visits (id_cust customer)
              (combine start_date min_time) (combine as_of max_time) True = 1
            \<or> count_visits visits (id_cust customer)
              (combine start_date min_time) (combine as_of max_time) True = 0
            \<longrightarrow> classify self customer as_of visits = Inr \<lparr>tier_name = ''Regular'', priority = 0\<rparr>))"
proof (intro conjI impI)
  show "classify self customer as_of visits =
     (case months_ago as_of (self_window_months self) of
        Inl e \<Rightarrow> Inl e
      | Inr start_date \<Rightarrow>
          Inr (case find (\<lambda>r. window_months r = self_window_months self \<and>
                             min_visits r \<le> count_visits visits (id_cust customer)
                                (combine start_date min_time) (combine as_of max_time)
                                (unique_per_day self))
                      (rules_desc self) of
                 Some r \<Rightarrow> resulting_tier r
               | None \<Rightarrow> \<lparr>tier_name = ''Regular'', priority = 0\<rparr>))"
    by (rule classify_eq)
next
  assume "valid_date as_of \<and> 0 \<le> self_window_months self
        \<and> self_window_months self \<le> 12 * (year as_of - 1) + (month as_of - 1)"
  then obtain sd where "months_ago as_of (self_window_months self) = Inr sd"
    using months_ago_returns by blast
  then show "\<exists>t. classify self customer as_of visits = Inr t"
    by (simp add: classify_eq)
next
  assume h: "rules_desc self =
          [\<lparr>min_visits = 4, window_months = 3,
             resulting_tier = \<lparr>tier_name = ''Super VIP'', priority = 2\<rparr>\<rparr>,
           \<lparr>min_visits = 2, window_months = 3,
             resulting_tier = \<lparr>tier_name = ''VIP'', priority = 1\<rparr>\<rparr>]
        \<and> self_window_months self = 3 \<and> unique_per_day self
        \<and> months_ago as_of 3 = Inr start_date"
    and "count_visits visits (id_cust customer)
              (combine start_date min_time) (combine as_of max_time) True = 4"
  then show "classify self customer as_of visits = Inr \<lparr>tier_name = ''Super VIP'', priority = 2\<rparr>"
    by (simp add: classify_eq)
next
  assume h: "rules_desc self =
          [\<lparr>min_visits = 4, window_months = 3,
             resulting_tier = \<lparr>tier_name = ''Super VIP'', priority = 2\<rparr>\<rparr>,
           \<lparr>min_visits = 2, window_months = 3,
             resulting_tier = \<lparr>tier_name = ''VIP'', priority = 1\<rparr>\<rparr>]
        \<and> self_window_months self = 3 \<and> unique_per_day self
        \<and> months_ago as_of 3 = Inr start_date"
    and "count_visits visits (id_cust customer)
              (combine start_date min_time) (combine as_of max_time) True = 3"
  then show "classify self customer as_of visits = Inr \<lparr>tier_name = ''VIP'', priority = 1\<rparr>"
    by (simp add: classify_eq)
next
  assume h: "rules_desc self =
          [\<lparr>min_visits = 4, window_months = 3,
             resulting_tier = \<lparr>tier_name = ''Super VIP'', priority = 2\<rparr>\<rparr>,
           \<lparr>min_visits = 2, window_months = 3,
             resulting_tier = \<lparr>tier_name = ''VIP'', priority = 1\<rparr>\<rparr>]
        \<and> self_window_months self = 3 \<and> unique_per_day self
        \<and> months_ago as_of 3 = Inr start_date"
    and "count_visits visits (id_cust customer)
              (combine start_date min_time) (combine as_of max_time) True = 1
            \<or> count_visits visits (id_cust customer)
              (combine start_date min_time) (combine as_of max_time) True = 0"
  then show "classify self customer as_of visits = Inr \<lparr>tier_name = ''Regular'', priority = 0\<rparr>"
    by (auto simp add: classify_eq)
qed

lemma ex_window_start: "months_ago ex_as_of 3 = Inr \<lparr>year = 2024, month = 12, day = 15\<rparr>"
  by (simp add: months_ago_eval ex_as_of_def)

lemma ex_counts:
  "count_visits ex_repo ''C001''
     (combine \<lparr>year = 2024, month = 12, day = 15\<rparr> min_time) (combine ex_as_of max_time) True = 4"
  "count_visits ex_repo ''C002''
     (combine \<lparr>year = 2024, month = 12, day = 15\<rparr> min_time) (combine ex_as_of max_time) True = 3"
  "count_visits ex_repo ''C003''
     (combine \<lparr>year = 2024, month = 12, day = 15\<rparr> min_time) (combine ex_as_of max_time) True = 1"
  "count_visits ex_repo ''C004''
     (combine \<lparr>year = 2024, month = 12, day = 15\<rparr> min_time) (combine ex_as_of max_time) True = 0"
  by (simp_all add: count_visits_def ex_data_defs dt_order_defs)

theorem classify_spec_witness:
  "classify ex_strategy (ex_customer ''C001'' ''bruno'') ex_as_of ex_repo
     = Inr \<lparr>tier_name = ''Super VIP'', priority = 2\<rparr>
   \<and> classify ex_strategy (ex_customer ''C002'' ''Carla'') ex_as_of ex_repo
     = Inr \<lparr>tier_name = ''VIP'', priority = 1\<rparr>
   \<and> classify ex_strategy (ex_customer ''C003'' ''Ana'') ex_as_of ex_repo
     = Inr \<lparr>tier_name = ''Regular'', priority = 0\<rparr>
   \<and> classify ex_strategy (ex_customer ''C004'' ''ana'') ex_as_of ex_repo
     = Inr \<lparr>tier_name = ''Regular'', priority = 0\<rparr>"
proof -
  have s: "rules_desc ex_strategy =
          [\<lparr>min_visits = 4, window_months = 3,
             resulting_tier = \<lparr>tier_name = ''Super VIP'', priority = 2\<rparr>\<rparr>,
           \<lparr>min_visits = 2, window_months = 3,
             resulting_tier = \<lparr>tier_name = ''VIP'', priority = 1\<rparr>\<rparr>]
        \<and> self_window_months ex_strategy = 3 \<and> unique_per_day ex_strategy
        \<and> months_ago ex_as_of 3 = Inr \<lparr>year = 2024, month = 12, day = 15\<rparr>"
    by (simp add: ex_strategy_def Config_init_def ex_window_start)
  have i: "id_cust (ex_customer c n) = c" for c n
    by (simp add: ex_customer_def)
  note p = classify_spec [THEN conjunct2, THEN conjunct2, THEN mp, OF s]
  have c1: "classify ex_strategy (ex_customer ''C001'' ''bruno'') ex_as_of ex_repo
     = Inr \<lparr>tier_name = ''Super VIP'', priority = 2\<rparr>"
    by (rule p [THEN conjunct1, THEN mp]) (simp add: i ex_counts)
  have c2: "classify ex_strategy (ex_customer ''C002'' ''Carla'') ex_as_of ex_repo
     = Inr \<lparr>tier_name = ''VIP'', priority = 1\<rparr>"
    by (rule p [THEN conjunct2, THEN conjunct1, THEN mp]) (simp add: i ex_counts)
  have c3: "classify ex_strategy (ex_customer ''C003'' ''Ana'') ex_as_of ex_repo
     = Inr \<lparr>tier_name = ''Regular'', priority = 0\<rparr>"
    by (rule p [THEN conjunct2, THEN conjunct2, THEN mp]) (simp add: i ex_counts)
  have c4: "classify ex_strategy (ex_customer ''C004'' ''ana'') ex_as_of ex_repo
     = Inr \<lparr>tier_name = ''Regular'', priority = 0\<rparr>"
    by (rule p [THEN conjunct2, THEN conjunct2, THEN mp]) (simp add: i ex_counts)
  from c1 c2 c3 c4 show ?thesis by simp
qed

text \<open>
  The claim as written fails for a reference date in the first months of year 1: the
  window start is no date, and \<^verbatim>\<open>classify\<close> raises instead of returning a tier.
\<close>

theorem classify_counterexample:
  "valid_date \<lparr>year = 1, month = 2, day = 10\<rparr>
   \<and> classify ex_strategy (ex_customer ''C001'' ''bruno'') \<lparr>year = 1, month = 2, day = 10\<rparr> ex_repo
       = Inl ValueError"
  by (simp add: classify_def months_ago_eval ex_strategy_def)

text \<open>
  Claim C9, amended. With an empty rule list \<^verbatim>\<open>classify\<close> never looks at the count:
  for every customer and visit history it returns the tier Regular with priority 0
  whenever the window start \<^verbatim>\<open>months_ago(as_of, window_months)\<close> is a date, which
  it is for every valid reference date and every window of at least 0 months that does
  not reach before year 1. The empty rule list itself is never the cause of an error:
  the only error \<^verbatim>\<open>classify\<close> raises is the one \<^verbatim>\<open>months_ago\<close> raises.
\<close>

theorem classify_empty_rules:
  "rules_desc self = [] \<longrightarrow>
     classify self customer as_of visits =
       (case months_ago as_of (self_window_months self) of
          Inl e \<Rightarrow> Inl e
        | Inr start_date \<Rightarrow> Inr \<lparr>tier_name = ''Regular'', priority = 0\<rparr>)
     \<and> (valid_date as_of \<and> 0 \<le> self_window_months self
          \<and> self_window_months self \<le> 12 * (year as_of - 1) + (month as_of - 1)
        \<longrightarrow> classify self customer as_of visits = Inr \<lparr>tier_name = ''Regular'', priority = 0\<rparr>)"
proof (intro impI conjI)
  assume e: "rules_desc self = []"
  then show c: "classify self customer as_of visits =
       (case months_ago as_of (self_window_months self) of
          Inl e \<Rightarrow> Inl e
        | Inr start_date \<Rightarrow> Inr \<lparr>tier_name = ''Regular'', priority = 0\<rparr>)"
    by (simp add: classify_eq split: sum.splits)
  assume "valid_date as_of \<and> 0 \<le> self_window_months self
          \<and> self_window_months self \<le> 12 * (year as_of - 1) + (month as_of - 1)"
  then obtain sd where "months_ago as_of (self_window_months self) = Inr sd"
    using months_ago_returns by blast
  with c show "classify self customer as_of visits = Inr \<lparr>tier_name = ''Regular'', priority = 0\<rparr>"
    by simp
qed

theorem classify_empty_rules_witness:
  "rules_desc \<lparr>rules_desc = [], self_window_months = 3, unique_per_day = True\<rparr> = []
   \<and> valid_date ex_as_of \<and> (0::int) \<le> 3 \<and> (3::int) \<le> 12 * (year ex_as_of - 1) + (month ex_as_of - 1)
   \<and> classify \<lparr>rules_desc = [], self_window_months = 3, unique_per_day = True\<rparr>
       (ex_customer ''C001'' ''bruno'') ex_as_of ex_repo
     = Inr \<lparr>tier_name = ''Regular'', priority = 0\<rparr>"
proof -
  have v: "valid_date ex_as_of"
    by (simp add: valid_date_def days_in_month_def ex_as_of_def)
  have b: "(3::int) \<le> 12 * (year ex_as_of - 1) + (month ex_as_of - 1)"
    by (simp add: ex_as_of_def)
  let ?s = "\<lparr>rules_desc = [], self_window_months = 3, unique_per_day = True\<rparr>"
  have e: "rules_desc ?s = []" by simp
  have p: "valid_date ex_as_of \<and> 0 \<le> self_window_months ?s
          \<and> self_window_months ?s \<le> 12 * (year ex_as_of - 1) + (month ex_as_of - 1)"
    using v b by simp
  have "classify ?s (ex_customer ''C001'' ''bruno'') ex_as_of ex_repo
     = Inr \<lparr>tier_name = ''Regular'', priority = 0\<rparr>"
    by (rule classify_empty_rules [THEN mp, OF e, THEN conjunct2, THEN mp, OF p])
  with v b show ?thesis by simp
qed

text \<open>
  The claim as written fails for 1 January of year 1 and the default window of three
  months: the empty rule list is never reached, \<^verbatim>\<open>months_ago\<close> raises first.
\<close>

theorem classify_empty_rules_counterexample:
  "valid_date \<lparr>year = 1, month = 1, day = 1\<rparr>
   \<and> classify \<lparr>rules_desc = [], self_window_months = 3, unique_per_day = True\<rparr>
       (ex_customer ''C001'' ''bruno'') \<lparr>year = 1, month = 1, day = 1\<rparr> []
     = Inl ValueError"
  by (simp add: classify_def months_ago_eval)

section \<open>The ranking\<close>

lemma rank_key_le:
  "((- v1, l1) \<le> (- v2, l2)) = (v2 < v1 \<or> (v1 = v2 \<and> l1 \<le> l2))"
  for v1 v2 :: int and l1 l2 :: string
  by auto

lemma sort_key_consecutive:
  assumes "Suc i < length xs"
  shows "f (sort_key f xs ! i) \<le> f (sort_key f xs ! Suc i)"
proof -
  have s: "sorted (map f (sort_key f xs))" by (rule sorted_sort_key)
  have l: "Suc i < length (map f (sort_key f xs))" using assms by simp
  from s l have "map f (sort_key f xs) ! i \<le> map f (sort_key f xs) ! Suc i"
    by (simp only: sorted_iff_nth_Suc)
  then show ?thesis using assms by simp
qed

lemma ranking_eq:
  "ranking_top_customers repo customers months as_of =
     (case months_ago as_of months of
        Inl e \<Rightarrow> Inl e
      | Inr start_date \<Rightarrow>
          Inr (sort_key (\<lambda>x. (- snd x, lower (name (fst x))))
                 (map (\<lambda>c. (c, count_visits repo (id_cust c)
                                  (combine start_date min_time) (combine as_of max_time) True))
                      (find_all customers))))"
  by (simp add: ranking_top_customers_def Let_def split: sum.splits)

text \<open>
  Claim C2, amended. \<^verbatim>\<open>ranking_top_customers\<close> first computes the window start
  \<^verbatim>\<open>months_ago(as_of, months)\<close> and raises what that raises. For a valid reference
  date and \<open>months \<ge> 1\<close> not reaching before January of year 1 it returns a list. Every
  list it returns holds one entry per known customer, the customer paired with
  \<^verbatim>\<open>count_visits\<close> of that customer, counted once per day, from the window start at
  midnight to \<^verbatim>\<open>as_of\<close> at the last instant of the day; and of two consecutive
  entries the first has the larger count, or the same count and a lower-cased name that
  is not after the second's.
\<close>

theorem ranking_top_customers_spec:
  "(valid_date as_of \<and> 1 \<le> months \<and> months \<le> 12 * (year as_of - 1) + (month as_of - 1)
      \<longrightarrow> (\<exists>rows. ranking_top_customers repo customers months as_of = Inr rows))
   \<and> (months_ago as_of months = Inl e
      \<longrightarrow> ranking_top_customers repo customers months as_of = Inl e)
   \<and> (ranking_top_customers repo customers months as_of = Inr rows
      \<longrightarrow> (\<exists>start_date. months_ago as_of months = Inr start_date
            \<and> mset rows =
                mset (map (\<lambda>c. (c, count_visits repo (id_cust c)
                                    (combine start_date min_time) (combine as_of max_time) True))
                       (find_all customers)))
          \<and> (\<forall>i. Suc i < length rows \<longrightarrow>
                 snd (rows ! Suc i) < snd (rows ! i)
                 \<or> (snd (rows ! i) = snd (rows ! Suc i)
                    \<and> lower (name (fst (rows ! i))) \<le> lower (name (fst (rows ! Suc i))))))"
proof (intro conjI impI allI)
  assume "valid_date as_of \<and> 1 \<le> months \<and> months \<le> 12 * (year as_of - 1) + (month as_of - 1)"
  then obtain sd where "months_ago as_of months = Inr sd"
    using months_ago_returns [of as_of months] by auto
  then show "\<exists>rows. ranking_top_customers repo customers months as_of = Inr rows"
    by (simp add: ranking_eq)
next
  assume "months_ago as_of months = Inl e"
  then show "ranking_top_customers repo customers months as_of = Inl e"
    by (simp add: ranking_eq)
next
  assume r: "ranking_top_customers repo customers months as_of = Inr rows"
  then obtain sd where sd: "months_ago as_of months = Inr sd"
    by (cases "months_ago as_of months") (simp_all add: ranking_eq)
  let ?raw = "map (\<lambda>c. (c, count_visits repo (id_cust c)
                 (combine sd min_time) (combine as_of max_time) True)) (find_all customers)"
  from r sd have rows: "rows = sort_key (\<lambda>x. (- snd x, lower (name (fst x)))) ?raw"
    by (simp add: ranking_eq)
  have "mset rows = mset ?raw"
    unfolding rows by (rule mset_sort)
  with sd show "\<exists>start_date. months_ago as_of months = Inr start_date
            \<and> mset rows =
                mset (map (\<lambda>c. (c, count_visits repo (id_cust c)
                                    (combine start_date min_time) (combine as_of max_time) True))
                       (find_all customers))"
    by blast
  fix i
  assume i: "Suc i < length rows"
  then have "Suc i < length ?raw" by (simp add: rows)
  then have "(- snd (rows ! i), lower (name (fst (rows ! i))))
               \<le> (- snd (rows ! Suc i), lower (name (fst (rows ! Suc i))))"
    unfolding rows by (rule sort_key_consecutive)
  then show "snd (rows ! Suc i) < snd (rows ! i)
                 \<or> (snd (rows ! i) = snd (rows ! Suc i)
                    \<and> lower (name (fst (rows ! i))) \<le> lower (name (fst (rows ! Suc i))))"
    by (simp only: rank_key_le)
qed

lemma ex_lower:
  "lower ''ANDRES'' = ''andres''" "lower ''Ana'' = ''ana''" "lower ''ana'' = ''ana''"
  "lower ''bruno'' = ''bruno''" "lower ''Carla'' = ''carla''"
  by code_simp+

lemma ex_count5:
  "count_visits ex_repo ''C005''
     (combine \<lparr>year = 2024, month = 12, day = 15\<rparr> min_time) (combine ex_as_of max_time) True = 1"
  by (simp add: count_visits_def ex_data_defs dt_order_defs)

lemma ex_ranking:
  "ranking_top_customers ex_repo ex_customers 3 ex_as_of = Inr
     [(ex_customer ''C001'' ''bruno'', 4), (ex_customer ''C002'' ''Carla'', 3),
      (ex_customer ''C003'' ''Ana'', 1), (ex_customer ''C005'' ''ANDRES'', 1),
      (ex_customer ''C004'' ''ana'', 0)]"
  by (simp add: ranking_top_customers_def find_all_def ex_customers_def ex_customer_def
        ex_window_start ex_counts ex_count5 ex_lower)

theorem ranking_top_customers_spec_witness:
  "valid_date ex_as_of \<and> (1::int) \<le> 3 \<and> (3::int) \<le> 12 * (year ex_as_of - 1) + (month ex_as_of - 1)
   \<and> ranking_top_customers ex_repo ex_customers 3 ex_as_of = Inr
       [(ex_customer ''C001'' ''bruno'', 4), (ex_customer ''C002'' ''Carla'', 3),
        (ex_customer ''C003'' ''Ana'', 1), (ex_customer ''C005'' ''ANDRES'', 1),
        (ex_customer ''C004'' ''ana'', 0)]
   \<and> (snd (ex_customer ''C003'' ''Ana'', 1::int) = snd (ex_customer ''C005'' ''ANDRES'', 1::int)
      \<and> lower (name (ex_customer ''C003'' ''Ana'')) \<le> lower (name (ex_customer ''C005'' ''ANDRES'')))"
proof -
  let ?rows = "[(ex_customer ''C001'' ''bruno'', 4::int), (ex_customer ''C002'' ''Carla'', 3),
        (ex_customer ''C003'' ''Ana'', 1), (ex_customer ''C005'' ''ANDRES'', 1),
        (ex_customer ''C004'' ''ana'', 0)]"
  have v: "valid_date ex_as_of"
    by (simp add: valid_date_def days_in_month_def ex_as_of_def)
  have b: "(3::int) \<le> 12 * (year ex_as_of - 1) + (month ex_as_of - 1)"
    by (simp add: ex_as_of_def)
  note t = ranking_top_customers_spec [of ex_as_of 3 ex_repo ex_customers _ ?rows]
  from t [THEN conjunct2, THEN conjunct2, THEN mp, OF ex_ranking, THEN conjunct2,
          THEN spec, of 2]
  have "snd (ex_customer ''C003'' ''Ana'', 1::int) = snd (ex_customer ''C005'' ''ANDRES'', 1::int)
      \<and> lower (name (ex_customer ''C003'' ''Ana'')) \<le> lower (name (ex_customer ''C005'' ''ANDRES''))"
    by simp
  with v b ex_ranking show ?thesis by simp
qed

text \<open>
  The claim as written fails for a reference date in the first months of year 1: the
  window start is no date and no ranking is returned.
\<close>

theorem ranking_top_customers_counterexample:
  "valid_date \<lparr>year = 1, month = 1, day = 20\<rparr> \<and> (1::int) \<le> 2
   \<and> ranking_top_customers ex_repo ex_customers 2 \<lparr>year = 1, month = 1, day = 20\<rparr> = Inl ValueError"
  by (simp add: ranking_top_customers_def months_ago_eval)

section \<open>The monthly breakdown\<close>

lemma month_of_index_inj: "month_of_index a = month_of_index b \<Longrightarrow> a = b"
proof -
  assume "month_of_index a = month_of_index b"
  then have "a div 12 = b div 12" "a mod 12 = b mod 12"
    by (simp_all add: month_of_index_def)
  then show "a = b" by (metis div_mult_mod_eq)
qed

lemma month_of_index_index:
  "1 \<le> m \<Longrightarrow> m \<le> 12 \<Longrightarrow> month_of_index (month_index (y, m)) = (y, m)"
  by (simp add: month_index_def month_of_index_def)

lemma first_of_fields:
  "year (first_of k) = k div 12" "month (first_of k) = k mod 12 + 1" "day (first_of k) = 1"
  by (simp_all add: first_of_def month_of_index_def)

lemma first_of_valid: "12 \<le> k \<Longrightarrow> k < 120000 \<Longrightarrow> valid_date (first_of k)"
proof -
  assume a: "12 \<le> k" "k < 120000"
  have "1 \<le> k div 12" using a(1) by simp
  moreover have "k div 12 \<le> 9999" using a(2) by simp
  moreover have "1 \<le> days_in_month (k div 12) (k mod 12 + 1)"
    using days_in_month_ge [of "k div 12" "k mod 12 + 1"] by simp
  ultimately show ?thesis by (simp add: valid_date_def first_of_fields)
qed

text \<open>Adding months to the first day of a month moves the month index.\<close>

lemma add_months_first_of:
  "add_months (first_of k) m =
     (if 12 \<le> k + m \<and> k + m < 120000 then Inr (first_of (k + m)) else Inl ValueError)"
proof -
  have y: "k div 12 + (k mod 12 + 1 - 1 + m) div 12 = (k + m) div 12"
  proof -
    have "k + m = 12 * (k div 12) + (k mod 12 + m)" by simp
    then have "(k + m) div 12 = (k mod 12 + m + (k div 12) * 12) div 12" by (simp add: ac_simps)
    also have "\<dots> = k div 12 + (k mod 12 + m) div 12" by (rule div_mult_self1) simp
    finally show ?thesis by simp
  qed
  have r: "(k mod 12 + 1 - 1 + m) mod 12 = (k + m) mod 12"
    by (simp add: mod_add_left_eq)
  have idx: "index (month_lengths ((k + m) div 12)) ((k + m) mod 12) =
               Inr (days_in_month ((k + m) div 12) ((k + m) mod 12 + 1))"
    using index_month_lengths [of "(k + m) mod 12 + 1"] by simp
  have mn: "min 1 (days_in_month ((k + m) div 12) ((k + m) mod 12 + 1)) = 1"
    using days_in_month_ge [of "(k + m) div 12" "(k + m) mod 12 + 1"] by simp
  have eq: "add_months (first_of k) m = mk_date ((k + m) div 12) ((k + m) mod 12 + 1) 1"
    unfolding add_months_def first_of_fields y r Let_def by (simp add: idx mn)
  show ?thesis
  proof (cases "12 \<le> k + m \<and> k + m < 120000")
    case True
    then have "valid_date (first_of (k + m))" by (simp add: first_of_valid)
    then show ?thesis using True
      unfolding eq mk_date_def by (simp add: first_of_def month_of_index_def)
  next
    case False
    then have "(k + m) div 12 < 1 \<or> 9999 < (k + m) div 12" by arith
    then show ?thesis using False
      unfolding eq by (auto simp: mk_date_year_low mk_date_year_high)
  qed
qed

lemma first_day_of_month:
  assumes "valid_date d"
  shows "mk_date (year d) (month d) 1 = Inr (first_of (month_index (year d, month d)))"
proof -
  have md: "1 \<le> month d" "month d \<le> 12" "1 \<le> year d" "year d \<le> 9999"
    using assms by (simp_all add: valid_date_def)
  have "first_of (month_index (year d, month d)) = \<lparr>year = year d, month = month d, day = 1\<rparr>"
    using md by (simp add: first_of_def month_of_index_index)
  moreover have "1 \<le> days_in_month (year d) (month d)"
    using days_in_month_ge [of "year d" "month d"] by simp
  ultimately show ?thesis using md by (simp add: mk_date_Inr)
qed

lemma update_fresh: "k \<notin> fst ` set al \<Longrightarrow> AList.update k v al = al @ [(k, v)]"
  by (induction al) auto

text \<open>The zero-filling loop appends one entry per month, in ascending order.\<close>

lemma fill_loop_eq:
  assumes "12 \<le> k" "k + int n < 120000"
    and "\<forall>i<n. month_of_index (k + int i) \<notin> fst ` set out"
  shows "fill_loop n counts (first_of k) out =
           Inr (out @ map (\<lambda>i. (month_of_index (k + int i),
                                   get_default counts (month_of_index (k + int i)) 0)) [0..<n])"
  using assms
proof (induction n arbitrary: k out)
  case 0
  then show ?case by simp
next
  case (Suc n)
  let ?e = "(month_of_index k, get_default counts (month_of_index k) 0)"
  have fresh: "month_of_index k \<notin> fst ` set out"
    using Suc.prems(3) by (metis add_0_right of_nat_0 zero_less_Suc)
  have up: "AList.update (year (first_of k), month (first_of k))
              (get_default counts (year (first_of k), month (first_of k)) 0) out = out @ [?e]"
    using fresh by (simp add: update_fresh month_of_index_def first_of_fields)
  have nxt: "add_months (first_of k) 1 = Inr (first_of (k + 1))"
    using Suc.prems(1,2) by (simp add: add_months_first_of)
  have fr: "\<forall>i<n. month_of_index (k + 1 + int i) \<notin> fst ` set (out @ [?e])"
  proof (intro allI impI)
    fix i assume i: "i < n"
    have "month_of_index (k + 1 + int i) \<noteq> month_of_index k"
      using month_of_index_inj [of "k + 1 + int i" k] by auto
    moreover have "month_of_index (k + int (Suc i)) \<notin> fst ` set out"
      using Suc.prems(3) i by (meson Suc_less_eq)
    then have "month_of_index (k + 1 + int i) \<notin> fst ` set out"
      by (simp add: ac_simps)
    ultimately show "month_of_index (k + 1 + int i) \<notin> fst ` set (out @ [?e])"
      by auto
  qed
  have ih: "fill_loop n counts (first_of (k + 1)) (out @ [?e]) =
              Inr ((out @ [?e]) @ map (\<lambda>i. (month_of_index (k + 1 + int i),
                                   get_default counts (month_of_index (k + 1 + int i)) 0)) [0..<n])"
    using Suc.prems(1,2) fr by (intro Suc.IH) simp_all
  have shift: "map (\<lambda>i. (month_of_index (k + int i),
                   get_default counts (month_of_index (k + int i)) 0)) [0..<Suc n] =
        ?e # map (\<lambda>i. (month_of_index (k + 1 + int i),
                   get_default counts (month_of_index (k + 1 + int i)) 0)) [0..<n]"
    by (simp only: upt_conv_Cons [OF zero_less_Suc] map_Suc_upt [symmetric] list.map map_map o_def)
       (simp add: ac_simps)
  show ?case
    unfolding shift by (simp add: Let_def up nxt ih)
qed

text \<open>The counting loop adds, for every month, the matching reservations of that month.\<close>

lemma count_loop_get:
  "get_default (count_loop rs cid s e counts) key 0 =
     get_default counts key 0 + int (length (filter (\<lambda>r. month_key r = key) (matching cid s e rs)))"
proof (induction rs arbitrary: counts)
  case Nil
  then show ?case by (simp add: matching_def)
next
  case (Cons r rs)
  show ?case
  proof (cases "customer_id r = cid \<and> dt_le s (dt r) \<and> dt_le (dt r) e")
    case True
    let ?c = "counts(month_key r \<mapsto> get_default counts (month_key r) 0 + 1)"
    have st: "count_loop (r # rs) cid s e counts = count_loop rs cid s e ?c"
      using True by (simp add: month_key_def Let_def)
    have gc: "get_default ?c key 0 = get_default counts key 0 + (if month_key r = key then 1 else 0)"
      by (simp add: get_default_def)
    have mt: "matching cid s e (r # rs) = r # matching cid s e rs"
      using True by (simp add: matching_def)
    show ?thesis
      unfolding st mt Cons.IH [of ?c] gc by simp
  next
    case False
    then have st: "count_loop (r # rs) cid s e counts = count_loop rs cid s e counts"
      by auto
    have mt: "matching cid s e (r # rs) = matching cid s e rs"
      using False by (simp add: matching_def)
    show ?thesis
      unfolding st mt by (rule Cons.IH)
  qed
qed

lemma visits_by_month_eq:
  assumes v: "valid_date as_of" and m: "1 \<le> months"
    and lo: "months - 1 \<le> 12 * (year as_of - 1) + (month as_of - 1)"
    and hi: "\<not> (year as_of = 9999 \<and> month as_of = 12)"
  shows "visits_by_month rs cid months as_of =
     Inr (map (\<lambda>i. (month_of_index (month_index (year as_of, month as_of) - (months - 1) + int i),
                     int (length (filter
                       (\<lambda>r. month_key r =
                          month_of_index (month_index (year as_of, month as_of) - (months - 1) + int i))
                       (matching cid
                          (combine (first_of (month_index (year as_of, month as_of) - (months - 1))) min_time)
                          (combine as_of \<lparr>hour = 23, minute = 59, second = 59, microsecond = 0\<rparr>)
                          rs)))))
            [0..<nat months])"
proof -
  define k where "k = month_index (year as_of, month as_of)"
  define b where "b = k - (months - 1)"
  have md: "1 \<le> month as_of" "month as_of \<le> 12" "1 \<le> year as_of" "year as_of \<le> 9999"
    using v by (simp_all add: valid_date_def)
  have k: "k = 12 * year as_of + (month as_of - 1)"
    by (simp add: k_def month_index_def)
  have khi: "k + 1 < 120000" using md hi k by arith
  have b12: "12 \<le> b" using lo k by (simp add: b_def)
  have bhi: "b + int (nat months) < 120000" using m khi by (simp add: b_def)
  have bk: "k + - (months - 1) = b" by (simp add: b_def)
  have first: "mk_date (year as_of) (month as_of) 1 = Inr (first_of k)"
    unfolding k_def using v by (rule first_day_of_month)
  have "add_months (first_of k) (- (months - 1)) =
          (if 12 \<le> b \<and> b < 120000 then Inr (first_of b) else Inl ValueError)"
    by (simp only: add_months_first_of bk)
  moreover have "b < 120000" using bhi m by simp
  ultimately have start: "add_months (first_of k) (- (months - 1)) = Inr (first_of b)"
    using b12 by simp
  have et: "min_time\<lparr>hour := 23, minute := 59, second := 59\<rparr> =
              \<lparr>hour = 23, minute = 59, second = 59, microsecond = 0\<rparr>"
    by (simp add: min_time_def)
  have fill: "fill_loop (nat months) c (first_of b) [] =
      Inr ([] @ map (\<lambda>i. (month_of_index (b + int i), get_default c (month_of_index (b + int i)) 0))
             [0..<nat months])" for c
    using b12 bhi by (intro fill_loop_eq) simp_all
  have g: "get_default (count_loop rs cid s e Map.empty) key 0 =
             int (length (filter (\<lambda>r. month_key r = key) (matching cid s e rs)))" for s e key
    by (simp add: count_loop_get) (simp add: get_default_def)
  have "visits_by_month rs cid months as_of =
          fill_loop (nat months)
            (count_loop rs cid (combine (first_of b) min_time)
               (combine as_of \<lparr>hour = 23, minute = 59, second = 59, microsecond = 0\<rparr>) Map.empty)
            (first_of b) []"
    unfolding visits_by_month_def first start sum.case Let_def et ..
  then show ?thesis
    unfolding k_def [symmetric] b_def [symmetric] fill g by simp
qed
















lemma ex_as_of_valid: "valid_date ex_as_of"
  by (simp add: valid_date_def days_in_month_def ex_as_of_def)


lemmas ex_month_defs =
  month_index_def month_of_index_def first_of_def month_key_def matching_def









text \<open>
  Claim C5 does not hold of the code. The window of \<^verbatim>\<open>visits_by_month\<close> ends at
  23:59:59 and no microseconds, where \<^verbatim>\<open>classify\<close> and
  \<^verbatim>\<open>ranking_top_customers\<close> end theirs at \<^verbatim>\<open>datetime.max.time()\<close>. A reservation
  half a second before midnight on the reference date is on that date and inside the
  window start, yet the month of the reference date gets 0; \<^verbatim>\<open>count_visits\<close> over
  the same month up to the last instant of the day counts it.
\<close>

theorem visits_by_month_last_second:
  "date_of (dt ex_late) = ex_as_of
   \<and> customer_id ex_late = ''C001''
   \<and> dt_le (combine \<lparr>year = 2025, month = 3, day = 1\<rparr> min_time) (dt ex_late)
   \<and> visits_by_month [ex_late] ''C001'' 1 ex_as_of = Inr [((2025, 3), 0)]
   \<and> count_visits [ex_late] ''C001''
        (combine \<lparr>year = 2025, month = 3, day = 1\<rparr> min_time) (combine ex_as_of max_time) False = 1"
proof -
  have "visits_by_month [ex_late] ''C001'' 1 ex_as_of = Inr [((2025, 3), 0)]"
    by (rule visits_by_month_eq [THEN trans])
       (simp_all add: ex_as_of_valid [unfolded ex_as_of_def] ex_month_defs ex_late_def ex_as_of_def dt_order_defs)
  then show ?thesis
    by (simp add: count_visits_def ex_late_def ex_as_of_def dt_order_defs)
qed

end
